theory Spec2Isabelle
  imports
    Complex_Main
    "HOL-Library.Extended_Nat"
    "HOL-Library.Sublist"
    "HOL-Library.Multiset"
    "HOL-Library.Signed_Division"
begin

section \<open>Data model\<close>

text \<open>
  \<^verbatim>\<open>frontend/src/App.tsx\<close> holds two revisions of the application, one after the
  other. The roster projector and the ranking engine are those of the second revision
  (the one with positional caps, round priorities and bye weeks); of the first revision
  only \<^verbatim>\<open>getUpcomingPickIndexes\<close> is modelled, beside the second's.

  The field \<^verbatim>\<open>id\<close> of a player is \<open>pid\<close> here.
  JavaScript numbers are modelled by their mathematical values: projections, ADP and the
  tunable coefficients are \<^typ>\<open>real\<close>; league size, draft slot and round count are
  \<^typ>\<open>int\<close>; counts of picks and bye weeks are \<^typ>\<open>nat\<close>. An optional field
  (\<^verbatim>\<open>number | null | undefined\<close>) is an \<^typ>\<open>'a option\<close>. Only the fields of
  \<^verbatim>\<open>Player\<close> that the roster projector and the ranking engine read are kept.
\<close>

datatype position = QB | RB | WR | TE | DST | K

record player =
  pid :: string
  name :: string
  position :: position
  team :: "string option"
  bye :: "nat option"
  adp :: "real option"
  proj_pts :: "real option"
  qb_pass_att :: "real option"
  qb_rush_share :: "real option"

datatype scoring = standard | half | ppr

record DraftSettings =
  leagueSize :: int
  draftSlot :: int
  rounds :: int
  scoring :: scoring
  teamQBInfluence :: real
  runSensitivity :: real

datatype owner = Me | Other

record pick =
  player_id :: string
  owner :: owner
  ts :: nat

text \<open>
  The keys of a roster object: the six positional starter slots, \<^verbatim>\<open>FLEX\<close>,
  \<^verbatim>\<open>BENCH\<close> and \<^verbatim>\<open>IR\<close>. \<^verbatim>\<open>yourRoster[pos]\<close> for a position
  \<open>pos\<close> is the list under \<open>Pos pos\<close>.
\<close>

datatype slot = Pos position | FLEX | BENCH | IR

type_synonym roster = "slot \<Rightarrow> player list"

definition allSlots :: "slot list" where
  "allSlots = [Pos QB, Pos RB, Pos WR, Pos TE, FLEX, Pos DST, Pos K, BENCH, IR]"

fun ROSTER_TEMPLATE :: "slot \<Rightarrow> nat" where
  "ROSTER_TEMPLATE (Pos QB) = 1"
| "ROSTER_TEMPLATE (Pos RB) = 2"
| "ROSTER_TEMPLATE (Pos WR) = 2"
| "ROSTER_TEMPLATE (Pos TE) = 1"
| "ROSTER_TEMPLATE FLEX = 1"
| "ROSTER_TEMPLATE (Pos DST) = 1"
| "ROSTER_TEMPLATE (Pos K) = 1"
| "ROSTER_TEMPLATE BENCH = 7"
| "ROSTER_TEMPLATE IR = 1"

definition FLEX_ELIGIBLE :: "position list" where
  "FLEX_ELIGIBLE = [RB, WR, TE]"

section \<open>Roster projector\<close>

text \<open>
  \<^verbatim>\<open>findSlotForPlayer(p, by)\<close>: the chain of \<^verbatim>\<open>if\<close>s in source order, with
  \<^verbatim>\<open>need(slot, count) = (by[slot]?.length || 0) < count\<close>.
\<close>

definition need :: "roster \<Rightarrow> slot \<Rightarrow> nat \<Rightarrow> bool" where
  "need by s n = (length (by s) < n)"

definition findSlotForPlayer :: "player \<Rightarrow> roster \<Rightarrow> slot" where
  "findSlotForPlayer p by =
    (if position p = QB \<and> need by (Pos QB) (ROSTER_TEMPLATE (Pos QB)) then Pos QB
     else if position p = RB \<and> need by (Pos RB) (ROSTER_TEMPLATE (Pos RB)) then Pos RB
     else if position p = WR \<and> need by (Pos WR) (ROSTER_TEMPLATE (Pos WR)) then Pos WR
     else if position p = TE \<and> need by (Pos TE) (ROSTER_TEMPLATE (Pos TE)) then Pos TE
     else if position p = DST \<and> need by (Pos DST) (ROSTER_TEMPLATE (Pos DST)) then Pos DST
     else if position p = K \<and> need by (Pos K) (ROSTER_TEMPLATE (Pos K)) then Pos K
     else if position p \<in> set FLEX_ELIGIBLE \<and> need by FLEX (ROSTER_TEMPLATE FLEX) then FLEX
     else BENCH)"

text \<open>\<^verbatim>\<open>by[slot].push(p)\<close>\<close>

definition push :: "slot \<Rightarrow> player \<Rightarrow> roster \<Rightarrow> roster" where
  "push s p by = by(s := by s @ [p])"

definition emptyRoster :: roster where
  "emptyRoster = (\<lambda>_. [])"

text \<open>
  \<^verbatim>\<open>yourIds = picks.filter((p) => p.owner === "me").map((p) => p.player_id)\<close> and
  \<^verbatim>\<open>chosen = yourIds.map((id) => players.find((p) => p.id === id)).filter(Boolean)\<close>:
  an id with no catalog entry is dropped.
\<close>

definition yourIds :: "pick list \<Rightarrow> string list" where
  "yourIds picks = map player_id (filter (\<lambda>p. owner p = Me) picks)"

definition chosen :: "string list \<Rightarrow> player list \<Rightarrow> player list" where
  "chosen ids players =
     map the (filter (\<lambda>r. r \<noteq> None) (map (\<lambda>i. find (\<lambda>p. pid p = i) players) ids))"

text \<open>The loop \<^verbatim>\<open>for (const p of chosen) { by[findSlotForPlayer(p, by)].push(p) }\<close>.\<close>

fun allocate :: "player list \<Rightarrow> roster \<Rightarrow> roster" where
  "allocate [] by = by"
| "allocate (p # ps) by = allocate ps (push (findSlotForPlayer p by) p by)"

definition yourRoster :: "string list \<Rightarrow> player list \<Rightarrow> roster" where
  "yourRoster ids players = allocate (chosen ids players) emptyRoster"

section \<open>Ranking engine: constants\<close>

fun replacementRank :: "position \<Rightarrow> nat" where
  "replacementRank QB = 12"
| "replacementRank RB = 24"
| "replacementRank WR = 30"
| "replacementRank TE = 12"
| "replacementRank DST = 12"
| "replacementRank K = 12"

fun scoringWeights :: "scoring \<Rightarrow> position \<Rightarrow> real" where
  "scoringWeights standard QB = 1.0"
| "scoringWeights standard RB = 1.05"
| "scoringWeights standard WR = 1.0"
| "scoringWeights standard TE = 1.0"
| "scoringWeights standard DST = 0.6"
| "scoringWeights standard K = 0.5"
| "scoringWeights half QB = 1.0"
| "scoringWeights half RB = 1.0"
| "scoringWeights half WR = 1.02"
| "scoringWeights half TE = 1.0"
| "scoringWeights half DST = 0.6"
| "scoringWeights half K = 0.5"
| "scoringWeights ppr QB = 1.0"
| "scoringWeights ppr RB = 0.98"
| "scoringWeights ppr WR = 1.05"
| "scoringWeights ppr TE = 1.03"
| "scoringWeights ppr DST = 0.6"
| "scoringWeights ppr K = 0.5"

text \<open>\<^verbatim>\<open>MAX_BY_POSITION\<close> is a partial record: RB and WR have no entry.\<close>

fun MAX_BY_POSITION :: "position \<Rightarrow> nat option" where
  "MAX_BY_POSITION QB = Some 1"
| "MAX_BY_POSITION DST = Some 1"
| "MAX_BY_POSITION K = Some 1"
| "MAX_BY_POSITION TE = Some 2"
| "MAX_BY_POSITION RB = None"
| "MAX_BY_POSITION WR = None"

definition STARTERS_ONLY :: "position \<Rightarrow> nat" where
  "STARTERS_ONLY pos = ROSTER_TEMPLATE (Pos pos)"

fun evenShare :: "position \<Rightarrow> real" where
  "evenShare QB = 0.17"
| "evenShare RB = 0.27"
| "evenShare WR = 0.27"
| "evenShare TE = 0.1"
| "evenShare DST = 0.1"
| "evenShare K = 0.09"

definition allPositions :: "position list" where
  "allPositions = [QB, RB, WR, TE, DST, K]"

text \<open>
  \<^verbatim>\<open>priorityWeight(pos, round)\<close>. The round is an extended natural number: the
  caller passes \<^verbatim>\<open>Math.max(1, Math.ceil(..))\<close>, which is a positive integer or,
  when the league size is 0, \<^verbatim>\<open>Infinity\<close>. Each \<^verbatim>\<open>return\<close> of the source is one
  branch, in source order.
\<close>

definition priorityWeight :: "position \<Rightarrow> enat \<Rightarrow> real" where
  "priorityWeight pos rnd =
    (if rnd = 1 \<and> (pos = WR \<or> pos = RB) then 1.25
     else if rnd = 1 \<and> pos = QB then 0.05
     else if rnd = 1 \<and> pos = TE then 0.9
     else if rnd = 1 \<and> (pos = K \<or> pos = DST) then 0.05
     else if rnd = 2 \<and> (pos = WR \<or> pos = RB) then 1.2
     else if rnd = 2 \<and> pos = QB then 0.4
     else if rnd = 2 \<and> pos = TE then 0.95
     else if rnd = 2 \<and> (pos = K \<or> pos = DST) then 0.1
     else if (rnd \<ge> 3 \<and> rnd \<le> 5) \<and> (pos = WR \<or> pos = RB) then 1.15
     else if (rnd \<ge> 3 \<and> rnd \<le> 5) \<and> pos = QB then 0.9
     else if (rnd \<ge> 3 \<and> rnd \<le> 5) \<and> pos = TE then 1.0
     else if (rnd \<ge> 3 \<and> rnd \<le> 5) \<and> (pos = K \<or> pos = DST) then 0.2
     else if (rnd \<ge> 6 \<and> rnd \<le> 9) \<and> (pos = WR \<or> pos = RB) then 1.05
     else if (rnd \<ge> 6 \<and> rnd \<le> 9) \<and> pos = QB then 1.0
     else if (rnd \<ge> 6 \<and> rnd \<le> 9) \<and> pos = TE then 1.0
     else if (rnd \<ge> 6 \<and> rnd \<le> 9) \<and> (pos = K \<or> pos = DST) then 0.4
     else if rnd \<ge> 10 \<and> (pos = K \<or> pos = DST) then 1.0
     else if rnd \<ge> 10 then 1.0
     else 1.0)"

section \<open>Ranking engine: the closures of \<^verbatim>\<open>rankPlayers\<close>\<close>

text \<open>\<^verbatim>\<open>p.proj_pts ?? 0\<close>\<close>

definition proj :: "player \<Rightarrow> real" where
  "proj p = (case proj_pts p of None \<Rightarrow> 0 | Some v \<Rightarrow> v)"

definition countOnRoster :: "roster \<Rightarrow> position \<Rightarrow> nat" where
  "countOnRoster roster pos =
     length (roster (Pos pos)) +
     (if pos \<noteq> DST \<and> pos \<noteq> K
      then length (filter (\<lambda>p. position p = pos) (roster FLEX)) else 0)"

definition startersRemaining :: "roster \<Rightarrow> position \<Rightarrow> int" where
  "startersRemaining roster pos =
     (let have = int (length (roster (Pos pos)));
          needed = int (STARTERS_ONLY pos)
      in max 0 (needed - have))"

definition flexOpen :: "roster \<Rightarrow> int" where
  "flexOpen roster =
     max 0 (int (ROSTER_TEMPLATE FLEX) - int (length (roster FLEX)))"

text \<open>
  \<^verbatim>\<open>byeCounts[pos]\<close> is a dictionary from \<^verbatim>\<open>String(p.bye ?? "")\<close> to a count.
  The key of a known bye week \<open>b\<close> is \<open>Some b\<close> (\<^verbatim>\<open>String\<close> is injective on
  numbers and never yields the empty string); the key \<^verbatim>\<open>""\<close> of an unknown bye
  week is \<open>None\<close>.
\<close>

fun countByes :: "player list \<Rightarrow> (nat option \<rightharpoonup> nat) \<Rightarrow> (nat option \<rightharpoonup> nat)" where
  "countByes [] m = m"
| "countByes (p # ps) m =
     countByes ps (m(bye p \<mapsto> (case m (bye p) of None \<Rightarrow> 0 | Some c \<Rightarrow> c) + 1))"

definition byeCounts :: "roster \<Rightarrow> position \<Rightarrow> (nat option \<rightharpoonup> nat)" where
  "byeCounts roster pos =
     countByes
       (roster (Pos pos) @
        (if pos \<noteq> DST \<and> pos \<noteq> K
         then filter (\<lambda>p. position p = pos) (roster FLEX) else []))
       Map.empty"

text \<open>
  \<^verbatim>\<open>byPos[pos]\<close>: the players of the pool that are not taken, in pool order, then
  sorted with the comparator \<^verbatim>\<open>(b.proj_pts ?? 0) - (a.proj_pts ?? 0)\<close>.
  \<^verbatim>\<open>Array.prototype.sort\<close> is stable, as \<^const>\<open>sort_key\<close> is.
\<close>

definition byPos :: "string set \<Rightarrow> player list \<Rightarrow> position \<Rightarrow> player list" where
  "byPos takenIds playerPool pos =
     sort_key (\<lambda>p. - proj p)
       (filter (\<lambda>p. pid p \<notin> takenIds \<and> position p = pos) playerPool)"

definition replacementValue :: "string set \<Rightarrow> player list \<Rightarrow> position \<Rightarrow> real" where
  "replacementValue takenIds playerPool pos =
     (let g = byPos takenIds playerPool pos;
          idx = min (int (replacementRank pos) - 1) (int (length g) - 1)
      in if idx \<ge> 0 then proj (g ! nat idx) else 0)"

text \<open>
  \<^verbatim>\<open>picksByPos\<close> is a \<^verbatim>\<open>Record<Position, number>\<close>: it has a count under each
  of the six positions, so \<^verbatim>\<open>Object.values\<close> and \<^verbatim>\<open>Object.keys\<close> range over all
  of them. \<^verbatim>\<open>Object.values(picksByPos).reduce((a, b) => a + b, 0)\<close>:
\<close>

definition totalPicksMade :: "(position \<Rightarrow> nat) \<Rightarrow> nat" where
  "totalPicksMade picksByPos = sum_list (map picksByPos allPositions)"

definition totalTaken :: "(position \<Rightarrow> nat) \<Rightarrow> nat" where
  "totalTaken picksByPos =
     (if totalPicksMade picksByPos = 0 then 1 else totalPicksMade picksByPos)"

definition runBias :: "DraftSettings \<Rightarrow> (position \<Rightarrow> nat) \<Rightarrow> position \<Rightarrow> real" where
  "runBias settings picksByPos pos =
     (let actual = real (picksByPos pos) / real (totalTaken picksByPos)
      in runSensitivity settings * (actual - evenShare pos))"

text \<open>
  \<^verbatim>\<open>Math.max(1, Math.ceil((totalPicksMade + 1) / settings.leagueSize))\<close>. Dividing
  the positive numerator by a league size of 0 gives \<^verbatim>\<open>Infinity\<close> in JavaScript
  (and 0 in HOL), so that case is written out.
\<close>

definition currentRound :: "DraftSettings \<Rightarrow> (position \<Rightarrow> nat) \<Rightarrow> enat" where
  "currentRound settings picksByPos =
     (if leagueSize settings = 0 then \<infinity>
      else enat (nat (max 1
        \<lceil>(real (totalPicksMade picksByPos) + 1) / real_of_int (leagueSize settings)\<rceil>)))"

section \<open>Ranking engine: the loop body of \<^verbatim>\<open>rankPlayers\<close>\<close>

text \<open>
  Each local constant of the loop body is a function of the engine's inputs and the
  player \<open>p\<close>. In \<^verbatim>\<open>weights[p.position] || 1.0\<close> and
  \<^verbatim>\<open>replacementValue[p.position] || 0\<close> the fallback changes nothing: no weight
  is 0, and a replacement value of 0 falls back to 0.
\<close>

definition base :: "DraftSettings \<Rightarrow> player \<Rightarrow> real" where
  "base settings p = proj p * scoringWeights (scoring settings) (position p)"

definition vor :: "string set \<Rightarrow> player list \<Rightarrow> player \<Rightarrow> real" where
  "vor takenIds playerPool p = proj p - replacementValue takenIds playerPool (position p)"

definition qbAdj :: "DraftSettings \<Rightarrow> player \<Rightarrow> real" where
  "qbAdj settings p =
     (if (position p = WR \<or> position p = TE) \<and> teamQBInfluence settings > 0
      then
        (let passAtt = (case qb_pass_att p of None \<Rightarrow> 550 | Some a \<Rightarrow> a);
             qbRun = min (max (case qb_rush_share p of None \<Rightarrow> 0.2 | Some r \<Rightarrow> r) 0) 0.8
         in teamQBInfluence settings * ((passAtt - 520) * 0.02 + (0.3 - qbRun) * 20))
      else 0)"

definition fractionalFlex :: "roster \<Rightarrow> player \<Rightarrow> real" where
  "fractionalFlex roster p =
     (if position p \<in> set FLEX_ELIGIBLE \<and> flexOpen roster > 0
      then real_of_int (flexOpen roster) / real (length FLEX_ELIGIBLE)
      else 0)"

definition needUnits :: "roster \<Rightarrow> player \<Rightarrow> real" where
  "needUnits roster p =
     real_of_int (startersRemaining roster (position p)) + fractionalFlex roster p"

definition starterBoost :: "roster \<Rightarrow> player \<Rightarrow> real" where
  "starterBoost roster p = (if startersRemaining roster (position p) > 0 then 1.35 else 1.0)"

definition benchDamp :: "roster \<Rightarrow> player \<Rightarrow> real" where
  "benchDamp roster p = (if startersRemaining roster (position p) = 0 then 0.93 else 1.0)"

definition pivotBonus :: "DraftSettings \<Rightarrow> (position \<Rightarrow> nat) \<Rightarrow> player \<Rightarrow> real" where
  "pivotBonus settings picksByPos p =
     1 + max 0 (0.15 - max 0 (runBias settings picksByPos (position p)))"

text \<open>
  \<^verbatim>\<open>p.adp ? Math.max(0, (100 - p.adp) * 0.01) : 0\<close>: the condition is the
  truthiness of \<^verbatim>\<open>p.adp\<close>, which is false for a missing value and for 0.
\<close>

definition adpHelp :: "player \<Rightarrow> real" where
  "adpHelp p =
     (case adp p of
        None \<Rightarrow> 0
      | Some a \<Rightarrow> if a = 0 then 0 else max 0 ((100 - a) * 0.01))"

definition prio :: "DraftSettings \<Rightarrow> (position \<Rightarrow> nat) \<Rightarrow> player \<Rightarrow> real" where
  "prio settings picksByPos p = priorityWeight (position p) (currentRound settings picksByPos)"

text \<open>
  \<^verbatim>\<open>byeAdj\<close> starts at 1.0 and is multiplied by 0.94 or 0.98;
  \<^verbatim>\<open>byeCounts[p.position][k] || 0\<close> reads a missing key as 0.
\<close>

definition byeAdj :: "roster \<Rightarrow> player \<Rightarrow> real" where
  "byeAdj roster p =
     (case bye p of
        None \<Rightarrow> 1.0
      | Some b \<Rightarrow>
          (let already = (case byeCounts roster (position p) (Some b) of
                            None \<Rightarrow> 0 | Some c \<Rightarrow> c)
           in if already \<ge> 2 then 1.0 * 0.94
              else if already = 1 then 1.0 * 0.98
              else 1.0))"

definition score_raw :: "DraftSettings \<Rightarrow> string set \<Rightarrow> player list \<Rightarrow> player \<Rightarrow> real" where
  "score_raw settings takenIds playerPool p =
     base settings p + vor takenIds playerPool p * 1.4 + qbAdj settings p"

definition finalScore ::
  "DraftSettings \<Rightarrow> roster \<Rightarrow> string set \<Rightarrow> player list \<Rightarrow> (position \<Rightarrow> nat) \<Rightarrow> player \<Rightarrow> real"
where
  "finalScore settings roster takenIds playerPool picksByPos p =
     score_raw settings takenIds playerPool p *
       (1 + 0.18 * min 2 (needUnits roster p)) *
       starterBoost roster p *
       benchDamp roster p *
       pivotBonus settings picksByPos p *
       prio settings picksByPos p *
       byeAdj roster p +
     adpHelp p"

text \<open>
  The \<^verbatim>\<open>explain\<close> string prints eight of the numbers above with
  \<^verbatim>\<open>toFixed\<close>; the model keeps the numbers themselves.
\<close>

record Explain =
  ex_base :: real
  ex_vor :: real
  ex_qbAdj :: real
  ex_starterBoost :: real
  ex_prio :: real
  ex_pivot :: real
  ex_byeAdj :: real
  ex_adpHelp :: real

record Scored =
  player :: player
  score :: real
  explain :: Explain

definition scorePlayer ::
  "DraftSettings \<Rightarrow> roster \<Rightarrow> string set \<Rightarrow> player list \<Rightarrow> (position \<Rightarrow> nat) \<Rightarrow> player \<Rightarrow> Scored"
where
  "scorePlayer settings roster takenIds playerPool picksByPos p =
     \<lparr> player = p,
       score = finalScore settings roster takenIds playerPool picksByPos p,
       explain = \<lparr> ex_base = base settings p,
                   ex_vor = vor takenIds playerPool p,
                   ex_qbAdj = qbAdj settings p,
                   ex_starterBoost = starterBoost roster p,
                   ex_prio = prio settings picksByPos p,
                   ex_pivot = pivotBonus settings picksByPos p,
                   ex_byeAdj = byeAdj roster p,
                   ex_adpHelp = adpHelp p \<rparr> \<rparr>"

text \<open>
  The two \<^verbatim>\<open>continue\<close>s of the loop: a taken id, and a position whose cap is
  defined and reached by \<^verbatim>\<open>countOnRoster\<close>.
\<close>

definition capped :: "roster \<Rightarrow> player \<Rightarrow> bool" where
  "capped roster p =
     (case MAX_BY_POSITION (position p) of
        None \<Rightarrow> False
      | Some cap \<Rightarrow> countOnRoster roster (position p) \<ge> cap)"

text \<open>
  \<^verbatim>\<open>rankPlayers\<close>: score every pool player that passes both checks, in pool order,
  then sort (stably) by descending score.
\<close>

definition rankPlayers ::
  "DraftSettings \<Rightarrow> roster \<Rightarrow> string set \<Rightarrow> player list \<Rightarrow> (position \<Rightarrow> nat) \<Rightarrow> Scored list"
where
  "rankPlayers settings roster takenIds playerPool picksByPos =
     sort_key (\<lambda>e. - score e)
       (map (scorePlayer settings roster takenIds playerPool picksByPos)
          (filter (\<lambda>p. pid p \<notin> takenIds \<and> \<not> capped roster p) playerPool))"

section \<open>Snake-draft pick numbers: the two revisions of \<^verbatim>\<open>getUpcomingPickIndexes\<close>\<close>

text \<open>
  JavaScript's \<^verbatim>\<open>%\<close> truncates towards zero, as \<^const>\<open>signed_modulo\<close> does. The number of
  picks made is \<^verbatim>\<open>picks.length\<close>, a natural number.

  First revision: the \<^verbatim>\<open>while\<close> loop that scans the overall picks one by one.
  With a league size of 0 the drafter is \<^verbatim>\<open>NaN\<close> and equals no slot.
\<close>

function scanPicks :: "DraftSettings \<Rightarrow> int \<Rightarrow> int \<Rightarrow> int list \<Rightarrow> int \<Rightarrow> int list" where
  "scanPicks settings lookahead lastPick picks pickIndex =
     (if int (length picks) < lookahead \<and> pickIndex \<le> lastPick
      then
        (let rnd = \<lceil>real_of_int pickIndex / real_of_int (leagueSize settings)\<rceil>;
             isOdd = (signed_modulo rnd 2 = 1);
             pickInRound = signed_modulo (pickIndex - 1) (leagueSize settings) + 1;
             drafter = (if isOdd then pickInRound else leagueSize settings - pickInRound + 1)
         in scanPicks settings lookahead lastPick
              (if leagueSize settings \<noteq> 0 \<and> drafter = draftSlot settings
               then picks @ [pickIndex] else picks)
              (pickIndex + 1))
      else picks)"
  by pat_completeness auto
termination
  by (relation "measure (\<lambda>(settings, lookahead, lastPick, picks, pickIndex).
                  nat (lastPick + 1 - pickIndex))") auto

declare scanPicks.simps [simp del]

definition getUpcomingPickIndexes_v1 :: "DraftSettings \<Rightarrow> nat \<Rightarrow> int \<Rightarrow> int list" where
  "getUpcomingPickIndexes_v1 settings picksMade lookahead =
     (let pickIndex = int picksMade + 1;
          lastPick = rounds settings * leagueSize settings
      in scanPicks settings lookahead lastPick [] pickIndex)"

text \<open>
  Second revision: the \<^verbatim>\<open>for\<close> loop over rounds, which pushes before it tests
  \<^verbatim>\<open>upcoming.length >= count\<close>. With a league size of 0 the first round is
  \<^verbatim>\<open>Infinity\<close> and the loop body never runs.
\<close>

function roundLoop :: "DraftSettings \<Rightarrow> int \<Rightarrow> int \<Rightarrow> int \<Rightarrow> int list \<Rightarrow> int \<Rightarrow> int list" where
  "roundLoop settings startPick lastPick cnt upcoming r =
     (if r \<le> rounds settings
      then
        (let firstOfRound = (r - 1) * leagueSize settings + 1;
             myPickThisRound =
               (if signed_modulo r 2 = 1
                then firstOfRound + (draftSlot settings - 1)
                else firstOfRound + (leagueSize settings - draftSlot settings))
         in if myPickThisRound \<ge> startPick \<and> myPickThisRound \<le> lastPick
            then
              (let upcoming' = upcoming @ [myPickThisRound]
               in if int (length upcoming') \<ge> cnt then upcoming'
                  else roundLoop settings startPick lastPick cnt upcoming' (r + 1))
            else roundLoop settings startPick lastPick cnt upcoming (r + 1))
      else upcoming)"
  by pat_completeness auto
termination
  by (relation "measure (\<lambda>(settings, startPick, lastPick, cnt, upcoming, r).
                  nat (rounds settings + 1 - r))") auto

declare roundLoop.simps [simp del]

definition getUpcomingPickIndexes_v2 :: "DraftSettings \<Rightarrow> nat \<Rightarrow> int \<Rightarrow> int list" where
  "getUpcomingPickIndexes_v2 settings picksMade cnt =
     (let startPick = int picksMade + 1;
          lastPick = rounds settings * leagueSize settings
      in if leagueSize settings = 0 then []
         else roundLoop settings startPick lastPick cnt []
                \<lceil>real_of_int startPick / real_of_int (leagueSize settings)\<rceil>)"

section \<open>The specification's reading of the roster projector\<close>

text \<open>
  The slot rule in the specification's words: the starter slot of the player's exact
  position while its capacity (QB 1, RB 2, WR 2, TE 1, DST 1, K 1) is not full; else
  FLEX for an RB, WR or TE while FLEX holds fewer than 1 player; else BENCH.
\<close>

fun spec_capacity :: "position \<Rightarrow> nat" where
  "spec_capacity QB = 1"
| "spec_capacity RB = 2"
| "spec_capacity WR = 2"
| "spec_capacity TE = 1"
| "spec_capacity DST = 1"
| "spec_capacity K = 1"

definition spec_slot :: "player \<Rightarrow> roster \<Rightarrow> slot" where
  "spec_slot p by =
     (if length (by (Pos (position p))) < spec_capacity (position p) then Pos (position p)
      else if position p \<in> {RB, WR, TE} \<and> length (by FLEX) < 1 then FLEX
      else BENCH)"

definition spec_assign :: "roster \<Rightarrow> player \<Rightarrow> roster" where
  "spec_assign by p = by(spec_slot p by := by (spec_slot p by) @ [p])"

text \<open>Every id of the list has a catalog entry; \<open>lookup\<close> is that entry.\<close>

definition resolves :: "string list \<Rightarrow> player list \<Rightarrow> bool" where
  "resolves ids players = list_all (\<lambda>i. find (\<lambda>p. pid p = i) players \<noteq> None) ids"

definition lookup :: "player list \<Rightarrow> string \<Rightarrow> player" where
  "lookup players i = the (find (\<lambda>p. pid p = i) players)"

text \<open>All players of a roster as a multiset, and their number, over the nine slot categories.\<close>

definition slotTotal :: "roster \<Rightarrow> player multiset" where
  "slotTotal by = sum_list (map (\<lambda>s. mset (by s)) allSlots)"

definition slotCount :: "roster \<Rightarrow> nat" where
  "slotCount by = sum_list (map (\<lambda>s. length (by s)) allSlots)"

section \<open>The caller's own count of the roster\<close>

text \<open>
  \<^verbatim>\<open>rosterCounts\<close> of the component \<^verbatim>\<open>App\<close>, which its \<^verbatim>\<open>filtered\<close>
  list uses for "cap enforcement": the loop over \<^verbatim>\<open>yourIds\<close> counts every
  self-owned id that resolves at its player's position, whatever slot the player sits in.
\<close>

definition rosterCounts :: "string list \<Rightarrow> player list \<Rightarrow> position \<Rightarrow> nat" where
  "rosterCounts ids players pos =
     length (filter (\<lambda>p. position p = pos) (chosen ids players))"

section \<open>The specification's reading of the ranking engine\<close>

text \<open>
  The self-owner's rostered players at a position: the players of that position in any
  slot category of the roster, starter slots, FLEX, BENCH and IR alike; how many of them
  have the bye week \<open>b\<close>; and the bye adjustment as the specification words it.
\<close>

definition spec_rostered :: "roster \<Rightarrow> position \<Rightarrow> player list" where
  "spec_rostered roster pos =
     filter (\<lambda>q. position q = pos) (concat (map roster allSlots))"

definition sameByeCount :: "roster \<Rightarrow> position \<Rightarrow> nat \<Rightarrow> nat" where
  "sameByeCount roster pos b =
     length (filter (\<lambda>q. bye q = Some b) (spec_rostered roster pos))"

definition spec_byeAdj :: "roster \<Rightarrow> player \<Rightarrow> real" where
  "spec_byeAdj roster p =
     (case bye p of
        None \<Rightarrow> 1.0
      | Some b \<Rightarrow>
          if sameByeCount roster (position p) b \<ge> 2 then 0.94
          else if sameByeCount roster (position p) b = 1 then 0.98
          else 1.0)"

text \<open>
  The list the code counts over, and three facts about every roster of the projector: its
  FLEX slot holds RBs, WRs and TEs only, a starter slot holds players of its own position
  only, and no starter slot exceeds its capacity.
\<close>

definition countedForBye :: "roster \<Rightarrow> position \<Rightarrow> player list" where
  "countedForBye roster pos =
     roster (Pos pos) @
     (if pos \<noteq> DST \<and> pos \<noteq> K
      then filter (\<lambda>p. position p = pos) (roster FLEX) else [])"

definition flexHoldsEligible :: "roster \<Rightarrow> bool" where
  "flexHoldsEligible roster = list_all (\<lambda>q. position q \<in> {RB, WR, TE}) (roster FLEX)"

definition startersHoldOwn :: "roster \<Rightarrow> bool" where
  "startersHoldOwn roster =
     list_all (\<lambda>pos. list_all (\<lambda>q. position q = pos) (roster (Pos pos))) allPositions"

definition startersWithinTemplate :: "roster \<Rightarrow> bool" where
  "startersWithinTemplate roster =
     list_all (\<lambda>pos. length (roster (Pos pos)) \<le> ROSTER_TEMPLATE (Pos pos)) allPositions"

text \<open>
  The untaken players of the pool at a position, in pool order; a list in descending
  order of projection; and the replacement value as the specification words it, over
  all catalog players of the position.
\<close>

definition untakenAt :: "string set \<Rightarrow> player list \<Rightarrow> position \<Rightarrow> player list" where
  "untakenAt takenIds playerPool pos =
     filter (\<lambda>p. pid p \<notin> takenIds \<and> position p = pos) playerPool"

definition descending :: "player list \<Rightarrow> bool" where
  "descending S = sorted_wrt (\<lambda>a b. proj a \<ge> proj b) S"

definition spec_replacementValue :: "player list \<Rightarrow> position \<Rightarrow> real" where
  "spec_replacementValue playerPool pos =
     (let g = sort_key (\<lambda>p. - proj p) (filter (\<lambda>p. position p = pos) playerPool)
      in if g = [] then 0 else proj (g ! min (replacementRank pos - 1) (length g - 1)))"









section \<open>Reading of the snake order\<close>

text \<open>
  The drafter that the first revision computes for an overall pick, together with its
  test for division by zero, and the overall pick of the configured slot in a round, as
  the second revision computes it.
\<close>

definition hit :: "DraftSettings \<Rightarrow> int \<Rightarrow> bool" where
  "hit settings pickIndex =
     (let rnd = \<lceil>real_of_int pickIndex / real_of_int (leagueSize settings)\<rceil>;
          isOdd = (signed_modulo rnd 2 = 1);
          pickInRound = signed_modulo (pickIndex - 1) (leagueSize settings) + 1;
          drafter = (if isOdd then pickInRound else leagueSize settings - pickInRound + 1)
      in leagueSize settings \<noteq> 0 \<and> drafter = draftSlot settings)"

definition myPick :: "DraftSettings \<Rightarrow> int \<Rightarrow> int" where
  "myPick settings r =
     (let firstOfRound = (r - 1) * leagueSize settings + 1
      in if signed_modulo r 2 = 1
         then firstOfRound + (draftSlot settings - 1)
         else firstOfRound + (leagueSize settings - draftSlot settings))"

section \<open>Example data\<close>

text \<open>The initial settings of the application (\<^verbatim>\<open>useState<DraftSettings>\<close>).\<close>

definition defaultSettings :: DraftSettings where
  "defaultSettings = \<lparr> leagueSize = 12, draftSlot = 6, rounds = 16, scoring = ppr,
                        teamQBInfluence = 0.6, runSensitivity = 1.0 \<rparr>"

text \<open>
  A catalog of eleven players (id, position, projection, bye week) and a draft log of
  seven picks, five of them the self-owner's.
\<close>

definition mkPlayer :: "string \<Rightarrow> position \<Rightarrow> real \<Rightarrow> nat option \<Rightarrow> player" where
  "mkPlayer i pos pts b =
     \<lparr> pid = i, name = i, position = pos, team = None, bye = b, adp = None,
       proj_pts = Some pts, qb_pass_att = None, qb_rush_share = None \<rparr>"

definition examplePool :: "player list" where
  "examplePool =
     [mkPlayer ''qb1'' QB 320 (Some 9), mkPlayer ''qb2'' QB 300 (Some 6),
      mkPlayer ''rb1'' RB 260 (Some 7), mkPlayer ''rb2'' RB 240 (Some 7),
      mkPlayer ''rb3'' RB 220 (Some 7), mkPlayer ''rb4'' RB 200 (Some 7),
      mkPlayer ''wr1'' WR 250 (Some 5), mkPlayer ''wr2'' WR 230 None,
      mkPlayer ''te1'' TE 180 (Some 10), mkPlayer ''te2'' TE 150 (Some 10),
      mkPlayer ''te3'' TE 120 (Some 10)]"

definition mkPick :: "string \<Rightarrow> owner \<Rightarrow> pick" where
  "mkPick i ow = \<lparr> player_id = i, owner = ow, ts = 0 \<rparr>"

definition exampleLog :: "pick list" where
  "exampleLog =
     [mkPick ''rb1'' Me, mkPick ''qb1'' Other, mkPick ''rb2'' Me, mkPick ''wr1'' Other,
      mkPick ''rb3'' Me, mkPick ''te1'' Me, mkPick ''te2'' Me]"







section \<open>Properties of the roster projector\<close>

lemma findSlotForPlayer_spec: "findSlotForPlayer p by = spec_slot p by"
  by (cases "position p")
     (simp_all add: findSlotForPlayer_def spec_slot_def need_def FLEX_ELIGIBLE_def)

lemma allocate_foldl: "allocate ps by = foldl spec_assign by ps"
  by (induction ps arbitrary: "by")
     (simp_all add: push_def spec_assign_def findSlotForPlayer_spec)

lemma allocate_append: "allocate (ps @ qs) by = allocate qs (allocate ps by)"
  by (induction ps arbitrary: "by") simp_all

lemma chosen_append: "chosen (ids @ later) players = chosen ids players @ chosen later players"
  by (simp add: chosen_def)

lemma chosen_lookup: "resolves ids players \<Longrightarrow> chosen ids players = map (lookup players) ids"
  by (induction ids) (simp_all add: chosen_def resolves_def lookup_def)

lemma push_prefix: "prefix (by s) (push s' p by s)"
  by (simp add: push_def)

lemma allocate_prefix: "prefix (by s) (allocate ps by s)"
proof (induction ps arbitrary: "by")
  case Nil
  show ?case by simp
next
  case (Cons p ps)
  have "prefix (by s) (push (findSlotForPlayer p by) p by s)"
    by (rule push_prefix)
  also have "prefix \<dots> (allocate ps (push (findSlotForPlayer p by) p by) s)"
    by (rule Cons.IH)
  finally show ?case by simp
qed

lemma resolves_exampleLog: "resolves (yourIds exampleLog) examplePool"
  by (simp add: resolves_def yourIds_def exampleLog_def examplePool_def mkPick_def mkPlayer_def)

text \<open>
  Claim C5. For a list of self-owned picks whose ids all resolve in the catalog, the
  roster is the result of assigning the picked players one by one, in draft order, each
  to the slot the specification's rule gives on the roster built so far; and whatever
  picks follow, every slot's list only grows at its end, so no assignment is revised.
\<close>

theorem roster_greedy_assignment:
  assumes "resolves ids players"
  shows "yourRoster ids players = foldl spec_assign emptyRoster (map (lookup players) ids)
         \<and> (\<forall>s. prefix (yourRoster ids players s) (yourRoster (ids @ later) players s))"
  using assms
  by (simp add: yourRoster_def allocate_foldl [symmetric] chosen_lookup chosen_append
        allocate_append allocate_prefix)

theorem roster_greedy_assignment_witness:
  "resolves (yourIds exampleLog) examplePool
   \<and> yourRoster (yourIds exampleLog) examplePool =
       foldl spec_assign emptyRoster (map (lookup examplePool) (yourIds exampleLog))
   \<and> prefix (yourRoster (yourIds exampleLog) examplePool BENCH)
        (yourRoster (yourIds exampleLog @ [''te3'']) examplePool BENCH)"
proof -
  have h: "resolves (yourIds exampleLog) examplePool"
    by (rule resolves_exampleLog)
  from roster_greedy_assignment [OF h, of "[''te3'']"] h show ?thesis
    by blast
qed

lemma slotTotal_push: "slotTotal (push s p by) = slotTotal by + {#p#}"
proof (cases s)
  case (Pos q)
  then show ?thesis
    by (cases q) (simp_all add: slotTotal_def allSlots_def push_def)
qed (simp_all add: slotTotal_def allSlots_def push_def)

lemma slotTotal_allocate: "slotTotal (allocate ps by) = slotTotal by + mset ps"
  by (induction ps arbitrary: "by") (simp_all add: slotTotal_push)

lemma slotTotal_empty: "slotTotal emptyRoster = {#}"
  by (simp add: slotTotal_def allSlots_def emptyRoster_def)

lemma slotTotal_yourRoster: "slotTotal (yourRoster ids players) = mset (chosen ids players)"
  by (simp add: yourRoster_def slotTotal_allocate slotTotal_empty)

lemma size_slotTotal: "size (slotTotal by) = slotCount by"
  by (simp add: slotTotal_def slotCount_def allSlots_def)

lemma slotTotal_concat: "slotTotal by = mset (concat (map by allSlots))"
  by (simp add: slotTotal_def allSlots_def)

lemma all_slots: "s \<in> set allSlots"
proof (cases s)
  case (Pos q)
  then show ?thesis by (cases q) (simp_all add: allSlots_def)
qed (simp_all add: allSlots_def)

lemma distinct_allSlots: "distinct allSlots"
  by (simp add: allSlots_def)

lemma find_pid: "find (\<lambda>p. pid p = i) players = Some q \<Longrightarrow> pid q = i"
  by (induction players) (auto split: if_splits)

lemma pid_lookup: "find (\<lambda>p. pid p = i) players \<noteq> None \<Longrightarrow> pid (lookup players i) = i"
  by (auto simp: lookup_def dest: find_pid)

lemma map_pid_chosen: "resolves ids players \<Longrightarrow> map pid (chosen ids players) = ids"
  by (induction ids) (simp_all add: chosen_lookup resolves_def pid_lookup)

lemma distinct_chosen:
  assumes "resolves ids players" and "distinct ids"
  shows "distinct (chosen ids players)"
proof -
  have "distinct (map pid (chosen ids players))"
    using assms by (simp add: map_pid_chosen)
  then show ?thesis by (simp add: distinct_map)
qed

lemma distinct_yourIds: "distinct (map player_id picks) \<Longrightarrow> distinct (yourIds picks)"
  by (simp add: yourIds_def distinct_map_filter)

lemma in_concat_slot_unique:
  assumes "distinct (concat (map by xs))" and "distinct xs"
    and "s1 \<in> set xs" and "s2 \<in> set xs"
    and "p \<in> set (by s1)" and "p \<in> set (by s2)"
  shows "s1 = s2"
  using assms
proof (induction xs)
  case Nil
  then show ?case by simp
next
  case (Cons x xs)
  then show ?case by auto
qed

text \<open>
  Claim C6. For a draft log whose self-owned picks all resolve in the catalog, the nine
  slot categories of the derived roster hold, taken together, exactly the self-owned
  players (as a multiset: each pick is placed once), so the counts of the categories add
  up to the number of self-owned picks; and when no player id occurs twice in the log
  (the invariant of the draft log), every self-owned player is in exactly one category.
\<close>

theorem roster_partition:
  assumes r: "resolves (yourIds picks) players"
  shows "slotTotal (yourRoster (yourIds picks) players) =
           mset (map (lookup players) (yourIds picks))
       \<and> slotCount (yourRoster (yourIds picks) players) = length (yourIds picks)
       \<and> (distinct (map player_id picks) \<longrightarrow>
            (\<forall>i \<in> set (yourIds picks).
               \<exists>!s. lookup players i \<in> set (yourRoster (yourIds picks) players s)))"
proof (intro conjI impI ballI)
  let ?ids = "yourIds picks"
  let ?R = "yourRoster ?ids players"
  show tot: "slotTotal ?R = mset (map (lookup players) ?ids)"
    using r by (simp add: slotTotal_yourRoster chosen_lookup)
  show "slotCount ?R = length ?ids"
    using arg_cong [OF tot, of size] by (simp add: size_slotTotal)
  fix i assume dp: "distinct (map player_id picks)" and i: "i \<in> set ?ids"
  have dc: "distinct (chosen ?ids players)"
    using r dp by (simp add: distinct_chosen distinct_yourIds)
  have m: "mset (concat (map ?R allSlots)) = mset (chosen ?ids players)"
    using slotTotal_yourRoster [of ?ids players] by (simp add: slotTotal_concat)
  have dR: "distinct (concat (map ?R allSlots))"
    using dc mset_eq_imp_distinct_iff [OF m] by simp
  have "lookup players i \<in> set (chosen ?ids players)"
    using r i by (simp add: chosen_lookup)
  then have "lookup players i \<in> set (concat (map ?R allSlots))"
    using mset_eq_setD [OF m] by simp
  then obtain s where s: "lookup players i \<in> set (?R s)" by auto
  show "\<exists>!s. lookup players i \<in> set (?R s)"
  proof (rule ex1I [of _ s])
    show "lookup players i \<in> set (?R s)" by (rule s)
  next
    fix s' assume "lookup players i \<in> set (?R s')"
    then show "s' = s"
      using in_concat_slot_unique [OF dR distinct_allSlots all_slots all_slots _ s] by blast
  qed
qed

theorem roster_partition_witness:
  "resolves (yourIds exampleLog) examplePool
   \<and> distinct (map player_id exampleLog)
   \<and> ''rb3'' \<in> set (yourIds exampleLog)
   \<and> slotTotal (yourRoster (yourIds exampleLog) examplePool) =
       mset (map (lookup examplePool) (yourIds exampleLog))
   \<and> slotCount (yourRoster (yourIds exampleLog) examplePool) = 5
   \<and> (\<exists>!s. lookup examplePool ''rb3'' \<in> set (yourRoster (yourIds exampleLog) examplePool s))"
proof -
  have h: "resolves (yourIds exampleLog) examplePool"
    by (rule resolves_exampleLog)
  have d: "distinct (map player_id exampleLog)"
    by (simp add: exampleLog_def mkPick_def)
  have i: "''rb3'' \<in> set (yourIds exampleLog)"
    by (simp add: yourIds_def exampleLog_def mkPick_def)
  have n: "length (yourIds exampleLog) = 5"
    by (simp add: yourIds_def exampleLog_def mkPick_def)
  from roster_partition [OF h] h d i n show ?thesis
    by simp
qed

section \<open>Properties of the ranking engine: who is ranked\<close>

lemma rankPlayers_set:
  "set (rankPlayers settings roster takenIds playerPool picksByPos) =
     scorePlayer settings roster takenIds playerPool picksByPos `
       {p \<in> set playerPool. pid p \<notin> takenIds \<and> \<not> capped roster p}"
  by (auto simp: rankPlayers_def)

lemma rankPlayers_players:
  "set (map player (rankPlayers settings roster takenIds playerPool picksByPos)) =
     {p \<in> set playerPool. pid p \<notin> takenIds \<and> \<not> capped roster p}"
  by (auto simp: rankPlayers_set scorePlayer_def image_iff)

lemma lookup_examplePool:
  "lookup examplePool ''qb1'' = mkPlayer ''qb1'' QB 320 (Some 9)"
  "lookup examplePool ''qb2'' = mkPlayer ''qb2'' QB 300 (Some 6)"
  "lookup examplePool ''rb1'' = mkPlayer ''rb1'' RB 260 (Some 7)"
  "lookup examplePool ''rb2'' = mkPlayer ''rb2'' RB 240 (Some 7)"
  "lookup examplePool ''rb3'' = mkPlayer ''rb3'' RB 220 (Some 7)"
  "lookup examplePool ''rb4'' = mkPlayer ''rb4'' RB 200 (Some 7)"
  "lookup examplePool ''wr1'' = mkPlayer ''wr1'' WR 250 (Some 5)"
  "lookup examplePool ''wr2'' = mkPlayer ''wr2'' WR 230 None"
  "lookup examplePool ''te1'' = mkPlayer ''te1'' TE 180 (Some 10)"
  "lookup examplePool ''te2'' = mkPlayer ''te2'' TE 150 (Some 10)"
  "lookup examplePool ''te3'' = mkPlayer ''te3'' TE 120 (Some 10)"
  by (simp_all add: lookup_def examplePool_def mkPlayer_def)

lemma exampleRoster:
  "yourRoster (yourIds exampleLog) examplePool (Pos QB) = []"
  "yourRoster (yourIds exampleLog) examplePool (Pos RB) =
     [mkPlayer ''rb1'' RB 260 (Some 7), mkPlayer ''rb2'' RB 240 (Some 7)]"
  "yourRoster (yourIds exampleLog) examplePool (Pos WR) = []"
  "yourRoster (yourIds exampleLog) examplePool (Pos TE) = [mkPlayer ''te1'' TE 180 (Some 10)]"
  "yourRoster (yourIds exampleLog) examplePool FLEX = [mkPlayer ''rb3'' RB 220 (Some 7)]"
  "yourRoster (yourIds exampleLog) examplePool (Pos DST) = []"
  "yourRoster (yourIds exampleLog) examplePool (Pos K) = []"
  "yourRoster (yourIds exampleLog) examplePool BENCH = [mkPlayer ''te2'' TE 150 (Some 10)]"
  "yourRoster (yourIds exampleLog) examplePool IR = []"
  by (simp_all add: yourRoster_def yourIds_def chosen_def exampleLog_def examplePool_def
        mkPick_def mkPlayer_def findSlotForPlayer_def need_def push_def emptyRoster_def
        FLEX_ELIGIBLE_def)

text \<open>
  Claim C2, evaluated where the code departs from it. In the example log the self-owner
  has drafted three RBs (the third fills FLEX) and then two TEs: the first fills the TE
  slot and the second goes to the bench. The self-owner's count at TE is 2, the cap of
  TE, and \<open>te3\<close> is not taken; \<^const>\<open>rankPlayers\<close> still ranks \<open>te3\<close>, for every
  setting and every table of positional counts, because \<^const>\<open>countOnRoster\<close> does
  not look at the bench.
\<close>

theorem rankPlayers_ranks_capped_position:
  "rosterCounts (yourIds exampleLog) examplePool TE = 2
   \<and> MAX_BY_POSITION TE = Some 2
   \<and> position (lookup examplePool ''te3'') = TE
   \<and> lookup examplePool ''te3'' \<in>
       set (map player (rankPlayers settings (yourRoster (yourIds exampleLog) examplePool)
              (set (map player_id exampleLog)) examplePool picksByPos))"
proof (intro conjI)
  let ?te3 = "lookup examplePool ''te3''"
  show "rosterCounts (yourIds exampleLog) examplePool TE = 2"
    by (simp add: rosterCounts_def yourIds_def chosen_def exampleLog_def examplePool_def
        mkPick_def mkPlayer_def)
  show "MAX_BY_POSITION TE = Some 2" by simp
  show "position ?te3 = TE"
    by (simp add: lookup_examplePool mkPlayer_def)
  have c: "\<not> capped (yourRoster (yourIds exampleLog) examplePool) ?te3"
    by (simp add: capped_def countOnRoster_def exampleRoster lookup_examplePool mkPlayer_def)
  have t: "pid ?te3 \<notin> set (map player_id exampleLog)"
    by (simp add: exampleLog_def mkPick_def lookup_examplePool mkPlayer_def)
  have m: "?te3 \<in> set examplePool"
    by (simp add: lookup_examplePool) (simp add: examplePool_def)
  show "?te3 \<in>
       set (map player (rankPlayers settings (yourRoster (yourIds exampleLog) examplePool)
              (set (map player_id exampleLog)) examplePool picksByPos))"
    unfolding rankPlayers_players using c t m by blast
qed

section \<open>Properties of the ranking engine: bye weeks\<close>

lemma countByes_lookup:
  "countByes ps m k =
     (if filter (\<lambda>q. bye q = k) ps = [] then m k
      else Some ((case m k of None \<Rightarrow> 0 | Some c \<Rightarrow> c) + length (filter (\<lambda>q. bye q = k) ps)))"
  by (induction ps arbitrary: m) auto

lemma byeCounts_already:
  "(case byeCounts roster pos k of None \<Rightarrow> 0 | Some c \<Rightarrow> c) =
     length (filter (\<lambda>q. bye q = k) (countedForBye roster pos))"
  unfolding byeCounts_def countByes_lookup countedForBye_def by simp

lemma byeAdj_counted:
  "byeAdj roster p =
     (case bye p of
        None \<Rightarrow> 1.0
      | Some b \<Rightarrow>
          if length (filter (\<lambda>q. bye q = Some b) (countedForBye roster (position p))) \<ge> 2
          then 0.94
          else if length (filter (\<lambda>q. bye q = Some b) (countedForBye roster (position p))) = 1
          then 0.98
          else 1.0)"
  by (simp add: byeAdj_def byeCounts_already Let_def split: option.splits)

lemma push_flex:
  "flexHoldsEligible by \<Longrightarrow> flexHoldsEligible (push (findSlotForPlayer p by) p by)"
  by (auto simp: flexHoldsEligible_def push_def findSlotForPlayer_def FLEX_ELIGIBLE_def)

lemma allocate_flex: "flexHoldsEligible by \<Longrightarrow> flexHoldsEligible (allocate ps by)"
  by (induction ps arbitrary: "by") (simp_all add: push_flex)

lemma empty_flex: "flexHoldsEligible emptyRoster"
  by (simp add: flexHoldsEligible_def emptyRoster_def)

lemma yourRoster_flex: "flexHoldsEligible (yourRoster ids players)"
  unfolding yourRoster_def by (rule allocate_flex [OF empty_flex])

lemma push_starters:
  "startersWithinTemplate by \<Longrightarrow> startersWithinTemplate (push (findSlotForPlayer p by) p by)"
  by (auto simp: startersWithinTemplate_def allPositions_def push_def findSlotForPlayer_def
        need_def)

lemma allocate_starters:
  "startersWithinTemplate by \<Longrightarrow> startersWithinTemplate (allocate ps by)"
  by (induction ps arbitrary: "by") (simp_all add: push_starters)

lemma empty_starters: "startersWithinTemplate emptyRoster"
  by (simp add: startersWithinTemplate_def allPositions_def emptyRoster_def)

lemma yourRoster_starters: "startersWithinTemplate (yourRoster ids players)"
  unfolding yourRoster_def by (rule allocate_starters [OF empty_starters])

lemma push_own:
  "startersHoldOwn by \<Longrightarrow> startersHoldOwn (push (findSlotForPlayer p by) p by)"
  by (auto simp: startersHoldOwn_def allPositions_def push_def findSlotForPlayer_def)

lemma allocate_own: "startersHoldOwn by \<Longrightarrow> startersHoldOwn (allocate ps by)"
  by (induction ps arbitrary: "by") (simp_all add: push_own)

lemma empty_own: "startersHoldOwn emptyRoster"
  by (simp add: startersHoldOwn_def allPositions_def emptyRoster_def)

lemma yourRoster_own: "startersHoldOwn (yourRoster ids players)"
  unfolding yourRoster_def by (rule allocate_own [OF empty_own])

lemma filter_own_slot:
  assumes "startersHoldOwn roster"
  shows "filter (\<lambda>q. position q = pos) (roster (Pos pos')) =
           (if pos' = pos then roster (Pos pos') else [])"
proof -
  have "list_all (\<lambda>q. position q = pos') (roster (Pos pos'))"
    using assms by (cases pos') (simp_all add: startersHoldOwn_def allPositions_def)
  then show ?thesis
    by (auto simp: list_all_iff filter_empty_conv filter_id_conv)
qed

lemma filter_own_slot_and:
  assumes "startersHoldOwn roster"
  shows "filter (\<lambda>q. position q = pos \<and> Q q) (roster (Pos pos')) =
           (if pos' = pos then filter Q (roster (Pos pos')) else [])"
proof -
  have "filter (\<lambda>q. position q = pos \<and> Q q) (roster (Pos pos')) =
          filter Q (filter (\<lambda>q. position q = pos) (roster (Pos pos')))"
    by simp
  then show ?thesis
    by (simp only: filter_own_slot [OF assms]) simp
qed

text \<open>
  On a roster of the projector, the specification's count is the code's count plus the
  players of the position on the bench and in IR that have the bye week.
\<close>

lemma sameByeCount_counted:
  "sameByeCount (yourRoster ids players) pos b =
     length (filter (\<lambda>q. bye q = Some b) (countedForBye (yourRoster ids players) pos))
     + length (filter (\<lambda>q. bye q = Some b)
         (filter (\<lambda>q. position q = pos)
            (yourRoster ids players BENCH @ yourRoster ids players IR)))"
proof -
  let ?R = "yourRoster ids players"
  note o = filter_own_slot_and [OF yourRoster_own, of _ _ ids players]
  have f: "filter (\<lambda>q. position q = DST \<and> bye q = Some b) (?R FLEX) = []"
    "filter (\<lambda>q. position q = K \<and> bye q = Some b) (?R FLEX) = []"
    using yourRoster_flex [of ids players]
    by (auto simp: flexHoldsEligible_def list_all_iff filter_empty_conv)
  show ?thesis
    by (cases pos)
       (simp_all add: sameByeCount_def spec_rostered_def allSlots_def countedForBye_def o f)
qed

text \<open>
  On a roster of the projector the code counts at most one player for a QB, K or DST
  candidate (the one starter slot; FLEX holds none of them), so the branch for two or
  more players of the same bye week is never taken for these positions, however many of
  them the self-owner has on the bench.
\<close>

lemma counted_single_starter:
  assumes "pos = QB \<or> pos = K \<or> pos = DST"
  shows "length (countedForBye (yourRoster ids players) pos) \<le> 1"
proof -
  let ?R = "yourRoster ids players"
  have f: "filter (\<lambda>p. position p = pos) (?R FLEX) = []"
    using yourRoster_flex [of ids players] assms
    by (auto simp: flexHoldsEligible_def list_all_iff filter_empty_conv)
  have "length (?R (Pos pos)) \<le> 1"
    using yourRoster_starters [of ids players] assms
    by (auto simp: startersWithinTemplate_def allPositions_def)
  then show ?thesis by (simp add: countedForBye_def f)
qed

lemma byeAdj_single_starter:
  assumes "position p = QB \<or> position p = K \<or> position p = DST"
  shows "byeAdj (yourRoster ids players) p = 1.0 \<or> byeAdj (yourRoster ids players) p = 0.98"
proof -
  have "length (filter P (countedForBye (yourRoster ids players) (position p))) \<le> 1" for P
    using counted_single_starter [OF assms, of ids players]
    by (meson le_trans length_filter_le)
  then have "\<not> 2 \<le> length (filter P (countedForBye (yourRoster ids players) (position p)))" for P
    by (simp add: not_le less_Suc_eq_le numeral_2_eq_2)
  then show ?thesis
    by (simp add: byeAdj_counted split: option.splits)
qed

text \<open>
  Claim C7, evaluated where the code departs from it. On the roster of the example log
  the self-owner has two TEs with bye week 10: \<open>te1\<close> in the TE slot and \<open>te2\<close> on the
  bench. The candidate \<open>te3\<close> is a TE with bye week 10, so two of the self-owner's
  rostered players at its position share its bye week and the claim's multiplier is
  0.94; the code counts over the TE slot and FLEX only, finds one, and gives 0.98.
\<close>

theorem byeAdj_ignores_bench:
  "position (lookup examplePool ''te3'') = TE
   \<and> bye (lookup examplePool ''te3'') = Some 10
   \<and> spec_rostered (yourRoster (yourIds exampleLog) examplePool) TE =
       [lookup examplePool ''te1'', lookup examplePool ''te2'']
   \<and> sameByeCount (yourRoster (yourIds exampleLog) examplePool) TE 10 = 2
   \<and> spec_byeAdj (yourRoster (yourIds exampleLog) examplePool) (lookup examplePool ''te3'') = 0.94
   \<and> countedForBye (yourRoster (yourIds exampleLog) examplePool) TE = [lookup examplePool ''te1'']
   \<and> byeAdj (yourRoster (yourIds exampleLog) examplePool) (lookup examplePool ''te3'') = 0.98"
proof -
  let ?R = "yourRoster (yourIds exampleLog) examplePool"
  have p: "position (lookup examplePool ''te3'') = TE" "bye (lookup examplePool ''te3'') = Some 10"
    by (simp_all add: lookup_examplePool mkPlayer_def)
  have r: "spec_rostered ?R TE = [lookup examplePool ''te1'', lookup examplePool ''te2'']"
    by (simp add: spec_rostered_def allSlots_def exampleRoster lookup_examplePool)
       (simp add: mkPlayer_def)
  have n: "sameByeCount ?R TE 10 = 2"
    unfolding sameByeCount_def r by (simp add: lookup_examplePool mkPlayer_def)
  have c: "countedForBye ?R TE = [lookup examplePool ''te1'']"
    by (simp add: countedForBye_def exampleRoster lookup_examplePool) (simp add: mkPlayer_def)
  have s: "spec_byeAdj ?R (lookup examplePool ''te3'') = 0.94"
    by (simp add: spec_byeAdj_def p n)
  have b: "byeAdj ?R (lookup examplePool ''te3'') = 0.98"
    by (simp add: byeAdj_counted p c) (simp add: lookup_examplePool mkPlayer_def)
  show ?thesis using p r n c s b by simp
qed

section \<open>Properties of the ranking engine: quarterback context\<close>

text \<open>
  Claim C8. The quarterback-context adjustment is 0 for a player who is neither WR nor
  TE and for every player when the QB-influence coefficient is 0; for a WR or TE and a
  positive coefficient it is the coefficient times
  \<open>(passAttempts - 520) * 0.02 + (0.3 - clamp rushShare 0 0.8) * 20\<close>, with the defaults
  550 and 0.2; and it does not decrease when the pass attempts grow, nor increase when
  the quarterback's rush share grows.
\<close>

theorem qb_context_adjustment:
  "(position p \<noteq> WR \<and> position p \<noteq> TE \<longrightarrow> qbAdj settings p = 0)
 \<and> (teamQBInfluence settings = 0 \<longrightarrow> qbAdj settings p = 0)
 \<and> ((position p = WR \<or> position p = TE) \<and> teamQBInfluence settings > 0 \<longrightarrow>
      qbAdj settings p =
        teamQBInfluence settings *
          (((case qb_pass_att p of None \<Rightarrow> 550 | Some a \<Rightarrow> a) - 520) * 0.02
           + (0.3 - min (max (case qb_rush_share p of None \<Rightarrow> 0.2 | Some r \<Rightarrow> r) 0) 0.8) * 20))
 \<and> (a \<le> a' \<longrightarrow>
      qbAdj settings (p\<lparr>qb_pass_att := Some a\<rparr>) \<le> qbAdj settings (p\<lparr>qb_pass_att := Some a'\<rparr>))
 \<and> (r \<le> r' \<longrightarrow>
      qbAdj settings (p\<lparr>qb_rush_share := Some r'\<rparr>) \<le> qbAdj settings (p\<lparr>qb_rush_share := Some r\<rparr>))"
proof (intro conjI impI)
  assume "a \<le> a'"
  then show "qbAdj settings (p\<lparr>qb_pass_att := Some a\<rparr>)
               \<le> qbAdj settings (p\<lparr>qb_pass_att := Some a'\<rparr>)"
    by (simp add: qbAdj_def Let_def mult_left_mono)
next
  assume "r \<le> r'"
  then have "min (max r 0) (4/5) \<le> min (max r' 0) (4/5)" by auto
  then show "qbAdj settings (p\<lparr>qb_rush_share := Some r'\<rparr>)
               \<le> qbAdj settings (p\<lparr>qb_rush_share := Some r\<rparr>)"
    by (simp add: qbAdj_def Let_def mult_left_mono)
qed (simp_all add: qbAdj_def Let_def)

theorem qb_context_adjustment_witness:
  "position (lookup examplePool ''rb1'') \<noteq> WR \<and> position (lookup examplePool ''rb1'') \<noteq> TE
   \<and> qbAdj defaultSettings (lookup examplePool ''rb1'') = 0
   \<and> teamQBInfluence (defaultSettings\<lparr>teamQBInfluence := 0\<rparr>) = 0
   \<and> qbAdj (defaultSettings\<lparr>teamQBInfluence := 0\<rparr>) (lookup examplePool ''wr1'') = 0
   \<and> position (lookup examplePool ''wr1'') = WR \<and> teamQBInfluence defaultSettings > 0
   \<and> qbAdj defaultSettings (lookup examplePool ''wr1'') = 1.56
   \<and> qbAdj defaultSettings ((lookup examplePool ''wr1'')\<lparr>qb_pass_att := Some 500\<rparr>)
       \<le> qbAdj defaultSettings ((lookup examplePool ''wr1'')\<lparr>qb_pass_att := Some 600\<rparr>)
   \<and> qbAdj defaultSettings ((lookup examplePool ''wr1'')\<lparr>qb_rush_share := Some 0.5\<rparr>)
       \<le> qbAdj defaultSettings ((lookup examplePool ''wr1'')\<lparr>qb_rush_share := Some 0.1\<rparr>)"
proof -
  have p: "position (lookup examplePool ''rb1'') = RB" "position (lookup examplePool ''wr1'') = WR"
    "qb_pass_att (lookup examplePool ''wr1'') = None"
    "qb_rush_share (lookup examplePool ''wr1'') = None"
    by (simp_all add: lookup_examplePool mkPlayer_def)
  have s: "teamQBInfluence defaultSettings = 0.6"
    "teamQBInfluence (defaultSettings\<lparr>teamQBInfluence := 0\<rparr>) = 0"
    by (simp_all add: defaultSettings_def)
  have o: "(500::real) \<le> 600" "(0.1::real) \<le> 0.5" by simp_all
  from qb_context_adjustment [of "lookup examplePool ''rb1''" defaultSettings 500 600 "0.1" "0.5"]
       qb_context_adjustment [of "lookup examplePool ''wr1''" "defaultSettings\<lparr>teamQBInfluence := 0\<rparr>" 500 600 "0.1" "0.5"]
       qb_context_adjustment [of "lookup examplePool ''wr1''" defaultSettings 500 600 "0.1" "0.5"]
       p s o
  show ?thesis by simp
qed

section \<open>Properties of the ranking engine: replacement baselines\<close>

lemma descending_sorted: "descending S = sorted (map (\<lambda>p. - proj p) S)"
  by (simp add: descending_def sorted_map)

lemma byPos_mset: "mset (byPos t pool pos) = mset (untakenAt t pool pos)"
  by (simp add: byPos_def untakenAt_def)

lemma byPos_descending: "descending (byPos t pool pos)"
  by (simp add: descending_sorted byPos_def)

lemma keys_unique:
  assumes "mset S = mset G" and "descending S"
  shows "map (\<lambda>p. - proj p) S = sort (map (\<lambda>p. - proj p) G)"
proof -
  have a: "mset (map (\<lambda>p. - proj p) S) = mset (map (\<lambda>p. - proj p) G)"
    using assms(1) by (metis mset_map)
  have b: "sorted (map (\<lambda>p. - proj p) S)"
    using assms(2) by (simp add: descending_sorted)
  show ?thesis by (rule properties_for_sort [OF a b, symmetric])
qed

lemma proj_nth_unique:
  assumes "mset S = mset G" and "descending S" and "mset S' = mset G" and "descending S'"
    and "i < length S"
  shows "proj (S ! i) = proj (S' ! i)"
proof -
  have e: "map (\<lambda>p. - proj p) S = map (\<lambda>p. - proj p) S'"
    using keys_unique [OF assms(1,2)] keys_unique [OF assms(3,4)] by simp
  then have l: "length S = length S'"
    using map_eq_imp_length_eq by blast
  have "(map (\<lambda>p. - proj p) S) ! i = (map (\<lambda>p. - proj p) S') ! i"
    using e by simp
  then show ?thesis using assms(5) l by simp
qed

lemma replacementValue_nth:
  "replacementValue t pool pos =
     (if byPos t pool pos = [] then 0
      else proj (byPos t pool pos ! min (replacementRank pos - 1) (length (byPos t pool pos) - 1)))"
proof (cases "byPos t pool pos = []")
  case True
  then show ?thesis by (simp add: replacementValue_def Let_def)
next
  case False
  then have l: "0 < length (byPos t pool pos)" by simp
  have r: "0 < replacementRank pos" by (cases pos) simp_all
  have "nat (min (int (replacementRank pos) - 1) (int (length (byPos t pool pos)) - 1)) =
          min (replacementRank pos - 1) (length (byPos t pool pos) - 1)"
    using l r by linarith
  moreover have "min (int (replacementRank pos) - 1) (int (length (byPos t pool pos)) - 1) \<ge> 0"
    using l r by linarith
  ultimately show ?thesis using False by (simp add: replacementValue_def Let_def)
qed

lemma replacementValue_sorted:
  assumes m: "mset S = mset (untakenAt t pool pos)" and d: "descending S"
  shows "replacementValue t pool pos =
           (if S = [] then 0 else proj (S ! min (replacementRank pos - 1) (length S - 1)))"
proof -
  have len: "length S = length (byPos t pool pos)"
    using m byPos_mset [of t pool pos] by (metis size_mset)
  show ?thesis
  proof (cases "S = []")
    case True
    then show ?thesis using len by (simp add: replacementValue_nth)
  next
    case False
    then have i: "min (replacementRank pos - 1) (length S - 1) < length S"
      by (simp add: min.strict_coboundedI2)
    have "proj (S ! min (replacementRank pos - 1) (length S - 1)) =
            proj (byPos t pool pos ! min (replacementRank pos - 1) (length S - 1))"
      by (rule proj_nth_unique [OF m d byPos_mset byPos_descending i])
    moreover have "byPos t pool pos \<noteq> []" using False len by auto
    ultimately show ?thesis using False len by (simp add: replacementValue_nth)
  qed
qed

text \<open>
  Claim C1, as amended. Let \<open>S\<close> be the untaken players of the pool at a position, in
  any descending order of projection. The replacement value of the position is the
  projection of the player of \<open>S\<close> at the replacement rank (QB 12th, RB 24th, WR 30th,
  TE 12th, DST 12th, K 12th), of the last player of \<open>S\<close> when \<open>S\<close> is shorter than the
  rank, and 0 when \<open>S\<close> is empty; the VOR reported for every ranked player is the player's
  projection minus the replacement value of the player's position; and the VOR of the
  replacement-rank player is 0.
\<close>

theorem replacement_baseline:
  assumes m: "mset S = mset (untakenAt takenIds playerPool pos)" and d: "descending S"
  shows "replacementValue takenIds playerPool pos =
           (if S = [] then 0 else proj (S ! min (replacementRank pos - 1) (length S - 1)))
       \<and> (\<forall>e \<in> set (rankPlayers settings roster takenIds playerPool picksByPos).
            ex_vor (explain e) =
              proj (player e) - replacementValue takenIds playerPool (position (player e)))
       \<and> (S \<noteq> [] \<longrightarrow>
            vor takenIds playerPool (S ! min (replacementRank pos - 1) (length S - 1)) = 0)"
proof (intro conjI impI)
  show rv: "replacementValue takenIds playerPool pos =
           (if S = [] then 0 else proj (S ! min (replacementRank pos - 1) (length S - 1)))"
    by (rule replacementValue_sorted [OF m d])
  show "\<forall>e \<in> set (rankPlayers settings roster takenIds playerPool picksByPos).
            ex_vor (explain e) =
              proj (player e) - replacementValue takenIds playerPool (position (player e))"
    by (auto simp: rankPlayers_set scorePlayer_def vor_def)
  assume ne: "S \<noteq> []"
  let ?q = "S ! min (replacementRank pos - 1) (length S - 1)"
  have "?q \<in> set S"
    using ne by (simp add: min.strict_coboundedI2)
  then have "?q \<in> set (untakenAt takenIds playerPool pos)"
    using mset_eq_setD [OF m] by simp
  then have "position ?q = pos"
    by (simp add: untakenAt_def)
  then show "vor takenIds playerPool ?q = 0"
    using rv ne by (simp add: vor_def)
qed

theorem replacement_baseline_witness:
  "mset [lookup examplePool ''rb1'', lookup examplePool ''rb3'', lookup examplePool ''rb4''] =
     mset (untakenAt {''rb2''} examplePool RB)
   \<and> descending [lookup examplePool ''rb1'', lookup examplePool ''rb3'', lookup examplePool ''rb4'']
   \<and> replacementValue {''rb2''} examplePool RB = 200
   \<and> vor {''rb2''} examplePool (lookup examplePool ''rb4'') = 0"
proof -
  let ?S = "[lookup examplePool ''rb1'', lookup examplePool ''rb3'', lookup examplePool ''rb4'']"
  have m: "mset ?S = mset (untakenAt {''rb2''} examplePool RB)"
    by (simp add: lookup_examplePool untakenAt_def) (simp add: examplePool_def mkPlayer_def)
  have d: "descending ?S"
    by (simp add: descending_def lookup_examplePool mkPlayer_def proj_def)
  have v: "proj (lookup examplePool ''rb4'') = 200"
    by (simp add: lookup_examplePool mkPlayer_def proj_def)
  from replacement_baseline [OF m d] m d v show ?thesis
    by simp
qed

text \<open>
  Claim C1 as stated ranks all catalog players of the position. With \<open>qb2\<close> taken, the
  only untaken QB of the example pool is \<open>qb1\<close> (320 points): the code's replacement
  value is 320 and the VOR of \<open>qb1\<close> is 0, where the claim's replacement value, over both
  QBs of the catalog, is 300.
\<close>

theorem replacement_all_players_counterexample:
  "replacementValue {''qb2''} examplePool QB = 320
   \<and> spec_replacementValue examplePool QB = 300
   \<and> replacementValue {''qb2''} examplePool QB \<noteq> spec_replacementValue examplePool QB"
  by (simp add: replacementValue_def byPos_def spec_replacementValue_def
        examplePool_def mkPlayer_def proj_def)

section \<open>Properties of the ranking engine: the final score\<close>











section \<open>Properties of the ranking engine: round-aware priority\<close>



lemma ceiling_first_pick:
  assumes "1 \<le> (L::int)"
  shows "\<lceil>1 / real_of_int L\<rceil> = 1"
proof -
  have "0 < 1 / real_of_int L" and "1 / real_of_int L \<le> 1"
    using assms by simp_all
  then show ?thesis by (simp add: ceiling_eq_iff)
qed









section \<open>Properties of the snake-draft pick numbers\<close>


lemma scanPicks_unfold:
  "scanPicks settings lookahead lastPick picks pickIndex =
     (if int (length picks) < lookahead \<and> pickIndex \<le> lastPick
      then scanPicks settings lookahead lastPick
             (if hit settings pickIndex then picks @ [pickIndex] else picks) (pickIndex + 1)
      else picks)"
  by (subst scanPicks.simps) (simp add: hit_def Let_def)

lemma roundLoop_unfold:
  "roundLoop settings startPick lastPick cnt upcoming r =
     (if r \<le> rounds settings
      then if myPick settings r \<ge> startPick \<and> myPick settings r \<le> lastPick
           then if int (length (upcoming @ [myPick settings r])) \<ge> cnt
                then upcoming @ [myPick settings r]
                else roundLoop settings startPick lastPick cnt
                       (upcoming @ [myPick settings r]) (r + 1)
           else roundLoop settings startPick lastPick cnt upcoming (r + 1)
      else upcoming)"
  by (subst roundLoop.simps) (simp add: myPick_def Let_def)

lemma ceiling_round:
  assumes "1 \<le> (L::int)"
  shows "(\<lceil>real_of_int i / real_of_int L\<rceil> = r) = ((r - 1) * L < i \<and> i \<le> r * L)"
proof -
  have L: "0 < real_of_int L" using assms by simp
  have a: "(real_of_int r - 1 < real_of_int i / real_of_int L) = ((r - 1) * L < i)"
  proof -
    have "(real_of_int r - 1 < real_of_int i / real_of_int L)
            = ((real_of_int r - 1) * real_of_int L < real_of_int i)"
      using L by (simp add: pos_less_divide_eq)
    also have "\<dots> = (real_of_int ((r - 1) * L) < real_of_int i)" by simp
    also have "\<dots> = ((r - 1) * L < i)" by (rule of_int_less_iff)
    finally show ?thesis .
  qed
  have b: "(real_of_int i / real_of_int L \<le> real_of_int r) = (i \<le> r * L)"
  proof -
    have "(real_of_int i / real_of_int L \<le> real_of_int r)
            = (real_of_int i \<le> real_of_int r * real_of_int L)"
      using L by (simp add: pos_divide_le_eq)
    also have "\<dots> = (real_of_int i \<le> real_of_int (r * L))" by simp
    also have "\<dots> = (i \<le> r * L)" by (rule of_int_le_iff)
    finally show ?thesis .
  qed
  show ?thesis by (simp only: ceiling_eq_iff a b)
qed

lemma signed_modulo_nonneg:
  assumes "0 \<le> (k::int)" and "0 < l"
  shows "signed_modulo k l = k mod l"
  using assms by (cases "k = 0") (simp_all add: signed_modulo_int_def)

lemma mod_in_round:
  assumes "1 \<le> (L::int)" and "(r - 1) * L < i" and "i \<le> r * L"
  shows "(i - 1) mod L = i - 1 - (r - 1) * L"
proof -
  have "(i - 1) mod L = ((i - 1 - (r - 1) * L) + (r - 1) * L) mod L" by simp
  also have "\<dots> = (i - 1 - (r - 1) * L) mod L" by (rule mod_mult_self1)
  also have "\<dots> = i - 1 - (r - 1) * L"
  proof (rule mod_pos_pos_trivial)
    show "0 \<le> i - 1 - (r - 1) * L" using assms(2) by simp
    have "r * L = (r - 1) * L + L" by (simp add: algebra_simps)
    then show "i - 1 - (r - 1) * L < L" using assms(3) by simp
  qed
  finally show ?thesis .
qed

lemma round_pos:
  assumes "1 \<le> (L::int)" and "i \<le> r * L" and "1 \<le> i"
  shows "1 \<le> r"
proof (rule ccontr)
  assume "\<not> 1 \<le> r"
  then have "r \<le> 0" by simp
  then have "r * L \<le> 0 * L" using assms(1) by (intro mult_right_mono) simp_all
  then show False using assms(2,3) by simp
qed

lemma hit_iff:
  assumes L: "1 \<le> leagueSize settings" and r: "1 \<le> r"
    and lo: "(r - 1) * leagueSize settings < i" and hi: "i \<le> r * leagueSize settings"
  shows "hit settings i = (i = myPick settings r)"
proof -
  let ?L = "leagueSize settings"
  have c: "\<lceil>real_of_int i / real_of_int ?L\<rceil> = r"
    using ceiling_round [OF L, of i r] lo hi by simp
  have i1: "0 \<le> i - 1"
  proof -
    have "0 \<le> (r - 1) * ?L" using r L by simp
    then show ?thesis using lo by simp
  qed
  have m: "signed_modulo (i - 1) ?L = i - 1 - (r - 1) * ?L"
    using signed_modulo_nonneg [OF i1, of ?L] mod_in_round [OF L lo hi] L by simp
  have L0: "?L \<noteq> 0" using L by simp
  show ?thesis
    unfolding hit_def myPick_def Let_def c m using L0 by (auto simp: algebra_simps)
qed

lemma myPick_in_round:
  assumes "1 \<le> leagueSize settings" and "1 \<le> draftSlot settings"
    and "draftSlot settings \<le> leagueSize settings"
  shows "(r - 1) * leagueSize settings < myPick settings r"
    and "myPick settings r \<le> r * leagueSize settings"
  using assms by (auto simp: myPick_def Let_def algebra_simps)

lemma scanPicks_skip:
  assumes "\<forall>j. i \<le> j \<and> j < i' \<longrightarrow> \<not> hit settings j"
    and "i \<le> i'" and "i' \<le> lastPick + 1" and "int (length picks) < lookahead"
  shows "scanPicks settings lookahead lastPick picks i =
           scanPicks settings lookahead lastPick picks i'"
  using assms
proof (induction "nat (i' - i)" arbitrary: i)
  case 0
  then have "i = i'" by simp
  then show ?case by simp
next
  case (Suc n)
  then have lt: "i < i'" by linarith
  then have nh: "\<not> hit settings i" using Suc.prems(1) by simp
  have le: "i \<le> lastPick" using lt Suc.prems(3) by simp
  have "scanPicks settings lookahead lastPick picks i =
          scanPicks settings lookahead lastPick picks (i + 1)"
    by (subst scanPicks_unfold) (simp add: nh le Suc.prems(4))
  also have "\<dots> = scanPicks settings lookahead lastPick picks i'"
  proof (rule Suc.hyps(1))
    show "n = nat (i' - (i + 1))" using Suc.hyps(2) by linarith
    show "\<forall>j. i + 1 \<le> j \<and> j < i' \<longrightarrow> \<not> hit settings j" using Suc.prems(1) by simp
    show "i + 1 \<le> i'" using lt by simp
    show "i' \<le> lastPick + 1" by (rule Suc.prems(3))
    show "int (length picks) < lookahead" by (rule Suc.prems(4))
  qed
  finally show ?case .
qed

lemma no_hit_in_round:
  assumes L: "1 \<le> leagueSize settings" and r: "1 \<le> r"
    and lo: "(r - 1) * leagueSize settings < j" and hi: "j \<le> r * leagueSize settings"
    and ne: "j \<noteq> myPick settings r"
  shows "\<not> hit settings j"
  using hit_iff [OF L r lo hi] ne by simp

lemma scanPicks_round:
  assumes L: "1 \<le> leagueSize settings"
    and s1: "1 \<le> draftSlot settings" and s2: "draftSlot settings \<le> leagueSize settings"
    and r: "1 \<le> r" and rR: "r \<le> rounds settings"
    and last: "lastPick = rounds settings * leagueSize settings"
    and lo: "(r - 1) * leagueSize settings < i" and hi: "i \<le> r * leagueSize settings"
    and len: "int (length picks) < lookahead"
  shows "scanPicks settings lookahead lastPick picks i =
           (if i \<le> myPick settings r
            then if int (length (picks @ [myPick settings r])) \<ge> lookahead
                 then picks @ [myPick settings r]
                 else scanPicks settings lookahead lastPick (picks @ [myPick settings r])
                        (r * leagueSize settings + 1)
            else scanPicks settings lookahead lastPick picks (r * leagueSize settings + 1))"
proof -
  let ?L = "leagueSize settings"
  let ?m = "myPick settings r"
  have mlo: "(r - 1) * ?L < ?m" and mhi: "?m \<le> r * ?L"
    using myPick_in_round [OF L s1 s2] by simp_all
  have rl: "r * ?L \<le> lastPick"
    unfolding last using rR L by (intro mult_right_mono) simp_all
  show ?thesis
  proof (cases "i \<le> ?m")
    case True
    have before: "\<forall>j. i \<le> j \<and> j < ?m \<longrightarrow> \<not> hit settings j"
    proof (intro allI impI)
      fix j assume j: "i \<le> j \<and> j < ?m"
      show "\<not> hit settings j"
      proof (rule no_hit_in_round [OF L r])
        show "(r - 1) * ?L < j" using j lo by simp
        show "j \<le> r * ?L" using j mhi by simp
        show "j \<noteq> ?m" using j by simp
      qed
    qed
    have "scanPicks settings lookahead lastPick picks i =
            scanPicks settings lookahead lastPick picks ?m"
      by (rule scanPicks_skip [OF before True _ len]) (use mhi rl in simp)
    also have "\<dots> = scanPicks settings lookahead lastPick (picks @ [?m]) (?m + 1)"
      using hit_iff [OF L r mlo mhi] len mhi rl
      by (subst scanPicks_unfold) simp
    finally have step: "scanPicks settings lookahead lastPick picks i =
          scanPicks settings lookahead lastPick (picks @ [?m]) (?m + 1)" .
    show ?thesis
    proof (cases "int (length (picks @ [?m])) \<ge> lookahead")
      case full: True
      have "scanPicks settings lookahead lastPick (picks @ [?m]) (?m + 1) = picks @ [?m]"
        using full by (subst scanPicks_unfold) simp
      then show ?thesis using step True full by simp
    next
      case more: False
      have after: "\<forall>j. ?m + 1 \<le> j \<and> j < r * ?L + 1 \<longrightarrow> \<not> hit settings j"
      proof (intro allI impI)
        fix j assume j: "?m + 1 \<le> j \<and> j < r * ?L + 1"
        show "\<not> hit settings j"
        proof (rule no_hit_in_round [OF L r])
          show "(r - 1) * ?L < j" using j mlo by simp
          show "j \<le> r * ?L" using j by simp
          show "j \<noteq> ?m" using j by simp
        qed
      qed
      have "scanPicks settings lookahead lastPick (picks @ [?m]) (?m + 1) =
              scanPicks settings lookahead lastPick (picks @ [?m]) (r * ?L + 1)"
        by (rule scanPicks_skip [OF after]) (use mhi rl more in simp_all)
      then show ?thesis using step True more by simp
    qed
  next
    case False
    have rest: "\<forall>j. i \<le> j \<and> j < r * ?L + 1 \<longrightarrow> \<not> hit settings j"
    proof (intro allI impI)
      fix j assume j: "i \<le> j \<and> j < r * ?L + 1"
      show "\<not> hit settings j"
      proof (rule no_hit_in_round [OF L r])
        show "(r - 1) * ?L < j" using j lo by simp
        show "j \<le> r * ?L" using j by simp
        show "j \<noteq> ?m" using j False by simp
      qed
    qed
    have "scanPicks settings lookahead lastPick picks i =
            scanPicks settings lookahead lastPick picks (r * ?L + 1)"
      by (rule scanPicks_skip [OF rest _ _ len]) (use hi rl in simp_all)
    then show ?thesis using False by simp
  qed
qed

lemma scan_eq_rounds:
  assumes L: "1 \<le> leagueSize settings"
    and s1: "1 \<le> draftSlot settings" and s2: "draftSlot settings \<le> leagueSize settings"
    and last: "lastPick = rounds settings * leagueSize settings"
    and r: "1 \<le> r"
    and lo: "(r - 1) * leagueSize settings < i" and hi: "i \<le> r * leagueSize settings"
    and st: "startPick = i \<or> (startPick \<le> i \<and> i = (r - 1) * leagueSize settings + 1)"
    and len: "int (length acc) < cnt"
  shows "scanPicks settings cnt lastPick acc i = roundLoop settings startPick lastPick cnt acc r"
  using r lo hi st len
proof (induction "nat (rounds settings + 1 - r)" arbitrary: r i acc)
  case 0
  then have over: "rounds settings < r" by simp
  have "rounds settings * leagueSize settings \<le> (r - 1) * leagueSize settings"
    using over L by (intro mult_right_mono) simp_all
  then have "lastPick < i" using "0.prems"(2) last by simp
  then have "scanPicks settings cnt lastPick acc i = acc"
    by (subst scanPicks_unfold) simp
  moreover have "roundLoop settings startPick lastPick cnt acc r = acc"
    using over by (subst roundLoop_unfold) simp
  ultimately show ?case by simp
next
  case (Suc n)
  let ?L = "leagueSize settings"
  let ?m = "myPick settings r"
  have rR: "r \<le> rounds settings" using Suc.hyps(2) by linarith
  have mlo: "(r - 1) * ?L < ?m" and mhi: "?m \<le> r * ?L"
    using myPick_in_round [OF L s1 s2] by simp_all
  have rl: "r * ?L \<le> lastPick"
    unfolding last using rR L by (intro mult_right_mono) simp_all
  have ml: "?m \<le> lastPick" using mhi rl by simp
  have same: "(startPick \<le> ?m) = (i \<le> ?m)"
    using Suc.prems(4) mlo by auto
  have next_round:
    "scanPicks settings cnt lastPick acc' (r * ?L + 1) =
       roundLoop settings startPick lastPick cnt acc' (r + 1)"
    if "int (length acc') < cnt" for acc'
  proof (rule Suc.hyps(1))
    show "n = nat (rounds settings + 1 - (r + 1))" using Suc.hyps(2) by linarith
    show "1 \<le> r + 1" using Suc.prems(1) by simp
    show "(r + 1 - 1) * ?L < r * ?L + 1" by simp
    show "r * ?L + 1 \<le> (r + 1) * ?L" using L by (simp add: algebra_simps)
    have "startPick \<le> i" using Suc.prems(4) by auto
    then have "startPick \<le> r * ?L + 1" using Suc.prems(3) by simp
    then show "startPick = r * ?L + 1 \<or>
               (startPick \<le> r * ?L + 1 \<and> r * ?L + 1 = (r + 1 - 1) * ?L + 1)"
      by simp
    show "int (length acc') < cnt" by (rule that)
  qed
  note v1 = scanPicks_round [OF L s1 s2 Suc.prems(1) rR last Suc.prems(2,3,5)]
  show ?case
  proof (cases "i \<le> ?m")
    case True
    show ?thesis
    proof (cases "int (length (acc @ [?m])) \<ge> cnt")
      case full: True
      have "roundLoop settings startPick lastPick cnt acc r = acc @ [?m]"
        using rR same True ml full by (subst roundLoop_unfold) simp
      then show ?thesis using v1 True full by simp
    next
      case more: False
      then have l': "int (length (acc @ [?m])) < cnt" by simp
      have "roundLoop settings startPick lastPick cnt acc r =
              roundLoop settings startPick lastPick cnt (acc @ [?m]) (r + 1)"
        using rR same True ml more by (subst roundLoop_unfold) simp
      then show ?thesis using v1 True more next_round [OF l'] by simp
    qed
  next
    case False
    have "roundLoop settings startPick lastPick cnt acc r =
            roundLoop settings startPick lastPick cnt acc (r + 1)"
      using rR same False by (subst roundLoop_unfold) simp
    then show ?thesis using v1 False next_round [OF Suc.prems(5)] by simp
  qed
qed

text \<open>
  Claim C10, as amended. For a league size of at least 1, a draft slot between 1 and the
  league size, any number of picks made and any number of rounds, the pick-by-pick scan
  of the first revision and the round-by-round loop of the second return the same list
  of upcoming overall picks whenever at least one pick is requested.
\<close>

theorem upcoming_picks_agree:
  assumes "1 \<le> leagueSize settings"
    and "1 \<le> draftSlot settings" and "draftSlot settings \<le> leagueSize settings"
    and "1 \<le> cnt"
  shows "getUpcomingPickIndexes_v1 settings picksMade cnt =
           getUpcomingPickIndexes_v2 settings picksMade cnt"
proof -
  let ?L = "leagueSize settings"
  let ?i = "int picksMade + 1"
  let ?r = "\<lceil>real_of_int ?i / real_of_int ?L\<rceil>"
  have b: "(?r - 1) * ?L < ?i \<and> ?i \<le> ?r * ?L"
    using ceiling_round [OF assms(1), of ?i ?r] by simp
  have r: "1 \<le> ?r"
    by (rule round_pos [OF assms(1) conjunct2 [OF b]]) simp
  have "scanPicks settings cnt (rounds settings * ?L) [] ?i =
          roundLoop settings ?i (rounds settings * ?L) cnt [] ?r"
    by (rule scan_eq_rounds [OF assms(1,2,3) refl r conjunct1 [OF b] conjunct2 [OF b]])
       (use assms(4) in simp_all)
  then show ?thesis
    using assms(1)
    by (simp add: getUpcomingPickIndexes_v1_def getUpcomingPickIndexes_v2_def Let_def)
qed

lemma upcoming_v2_example: "getUpcomingPickIndexes_v2 defaultSettings 7 3 = [19, 30, 43]"
  by (simp add: getUpcomingPickIndexes_v2_def defaultSettings_def roundLoop.simps
        signed_modulo_int_def)

theorem upcoming_picks_agree_witness:
  "1 \<le> leagueSize defaultSettings
   \<and> 1 \<le> draftSlot defaultSettings \<and> draftSlot defaultSettings \<le> leagueSize defaultSettings
   \<and> (1::int) \<le> 3
   \<and> getUpcomingPickIndexes_v1 defaultSettings 7 3 = getUpcomingPickIndexes_v2 defaultSettings 7 3
   \<and> getUpcomingPickIndexes_v1 defaultSettings 7 3 = [19, 30, 43]"
proof -
  have h: "1 \<le> leagueSize defaultSettings" "1 \<le> draftSlot defaultSettings"
    "draftSlot defaultSettings \<le> leagueSize defaultSettings" "(1::int) \<le> 3"
    by (simp_all add: defaultSettings_def)
  from upcoming_picks_agree [OF h, of 7] h upcoming_v2_example show ?thesis
    by simp
qed

text \<open>
  Claim C10 as stated covers every requested count. Asked for 0 picks, the scanning
  revision returns none, and the round-by-round revision, which tests the length only
  after it has pushed, returns the first upcoming pick.
\<close>

theorem upcoming_count_zero_counterexample:
  "1 \<le> leagueSize defaultSettings
   \<and> 1 \<le> draftSlot defaultSettings \<and> draftSlot defaultSettings \<le> leagueSize defaultSettings
   \<and> getUpcomingPickIndexes_v1 defaultSettings 0 0 = []
   \<and> getUpcomingPickIndexes_v2 defaultSettings 0 0 = [6]"
proof -
  have c: "\<lceil>(1::real) / 12\<rceil> = 1"
    using ceiling_first_pick [of 12] by simp
  show ?thesis
    by (simp add: getUpcomingPickIndexes_v1_def getUpcomingPickIndexes_v2_def
          defaultSettings_def scanPicks.simps roundLoop.simps signed_modulo_int_def c Let_def)
qed

end
